theory Spec2Isabelle
  imports Complex_Main
begin

section \<open>The local discovery cache of gt.vscode.wrapper\<close>

text \<open>
  The development embeds \<^verbatim>\<open>src/py/gt/vscode/wrapper/_wrapper.py\<close>: the fingerprint
  collector \<^verbatim>\<open>_scan_mtimes\<close>, the staleness check \<^verbatim>\<open>_is_stale\<close> and the cache
  manager \<^verbatim>\<open>write_local_bundles\<close>. A leading underscore is not part of an Isabelle
  name, so \<^verbatim>\<open>_scan_mtimes\<close> and \<^verbatim>\<open>_is_stale\<close> appear without it.
\<close>

subsection \<open>Values\<close>

text \<open>
  A path is the text \<^verbatim>\<open>str(p)\<close> of a \<^verbatim>\<open>pathlib.Path\<close>. A modification time is the
  finite double \<^verbatim>\<open>st_mtime\<close>, taken as the rational number it denotes, so that Python's
  exact comparison of a float with a float or with an int is equality of rationals.
\<close>

type_synonym path = string
type_synonym mtime = rat

text \<open>The exceptions that the modelled code can meet.\<close>

datatype py_error = OSError | AttributeError

text \<open>
  What \<^verbatim>\<open>json.loads\<close> returns. An object is the Python dict it becomes, kept as an
  association list and read with \<open>map_of\<close>. \<open>JNonFinite\<close> stands for the literals
  \<^verbatim>\<open>NaN\<close>, \<^verbatim>\<open>Infinity\<close> and \<^verbatim>\<open>-Infinity\<close>, which \<^verbatim>\<open>json.loads\<close> accepts and which equal
  no modification time.
\<close>

datatype json =
    JNull
  | JBool bool
  | JNum rat
  | JNonFinite
  | JStr string
  | JArr "json list"
  | JObj "(string \<times> json) list"

text \<open>
  A Python \<^verbatim>\<open>dict[str, float]\<close> in insertion order: \<^verbatim>\<open>d[k] = v\<close> overwrites the value of
  a key that is present, in place, and appends a new key at the end.
\<close>

type_synonym mtimes = "(path \<times> mtime) list"

fun setitem :: "mtimes \<Rightarrow> path \<Rightarrow> mtime \<Rightarrow> mtimes" where
  "setitem [] k v = [(k, v)]"
| "setitem ((k', v') # d) k v = (if k' = k then (k, v) # d else (k', v') # setitem d k v)"

subsection \<open>The platform and the directory tree\<close>

text \<open>
  The wrapper reads the directory tree through \<^verbatim>\<open>Path.is_dir\<close>, \<^verbatim>\<open>Path.stat\<close> and
  \<^verbatim>\<open>Path.iterdir\<close>. A filesystem state gives, for every path, what these calls do:
  \<^item> \<open>is_dir\<close> and \<open>is_dir_raises\<close>: whether the path is a directory, and whether
    \<^verbatim>\<open>Path.is_dir\<close> raises \<^verbatim>\<open>OSError\<close> instead of answering. Up to CPython 3.12
    \<^verbatim>\<open>Path.is_dir\<close> answers \<^verbatim>\<open>False\<close> for the errors \<^verbatim>\<open>ENOENT\<close>, \<^verbatim>\<open>ENOTDIR\<close>, \<^verbatim>\<open>EBADF\<close> and
    \<^verbatim>\<open>ELOOP\<close> and raises every other \<^verbatim>\<open>OSError\<close> (a directory on the way that may not be
    searched, a name that is too long); from 3.13 it never raises, which is the state
    with \<open>is_dir_raises\<close> false everywhere;
  \<^item> \<open>st_mtime\<close> and \<open>stat_raises\<close>: the last-modified time, and whether \<^verbatim>\<open>Path.stat\<close>
    raises \<^verbatim>\<open>OSError\<close> instead of returning it;
  \<^item> \<open>entries\<close> and \<open>iterdir_raises\<close>: the entries of a directory as the paths
    \<^verbatim>\<open>str(child)\<close> in the order \<^verbatim>\<open>os.listdir\<close> gives them, and whether \<^verbatim>\<open>Path.iterdir\<close>
    raises \<^verbatim>\<open>OSError\<close> instead of listing them.
\<close>

record filesystem =
  is_dir :: "path \<Rightarrow> bool"
  is_dir_raises :: "path \<Rightarrow> bool"
  st_mtime :: "path \<Rightarrow> mtime"
  stat_raises :: "path \<Rightarrow> bool"
  entries :: "path \<Rightarrow> path list"
  iterdir_raises :: "path \<Rightarrow> bool"

definition Path_is_dir :: "filesystem \<Rightarrow> path \<Rightarrow> py_error + bool" where
  "Path_is_dir fs p = (if is_dir_raises fs p then Inl OSError else Inr (is_dir fs p))"

definition stat_mtime :: "filesystem \<Rightarrow> path \<Rightarrow> py_error + mtime" where
  "stat_mtime fs p = (if stat_raises fs p then Inl OSError else Inr (st_mtime fs p))"

definition iterdir :: "filesystem \<Rightarrow> path \<Rightarrow> py_error + path list" where
  "iterdir fs p = (if iterdir_raises fs p then Inl OSError else Inr (entries fs p))"

text \<open>
  A bundle as \<^verbatim>\<open>envoy.discover_bundles_auto\<close> returns it; the wrapper reads only
  \<^verbatim>\<open>str(b.root)\<close>.
\<close>

record Bundle =
  root :: path

text \<open>
  What the module takes from its surroundings: \<^verbatim>\<open>os.name\<close>, the variable
  \<^verbatim>\<open>ENVOY_BNDL_ROOTS\<close> (\<open>None\<close> when unset), pathlib's \<^verbatim>\<open>str(Path(s))\<close>, the
  module-level path of the Result File, and the list that the external scan
  \<^verbatim>\<open>envoy.discover_bundles_auto()\<close> returns when it is called.
\<close>

record environment =
  os_name :: string
  ENVOY_BNDL_ROOTS :: "string option"
  Path_str :: "string \<Rightarrow> path"
  LOCAL_BUNDLES_PATH :: path
  discover_bundles_auto :: "Bundle list"

subsection \<open>Strings\<close>

text \<open>
  \<^verbatim>\<open>str.isspace\<close> on the code points below 256, \<^verbatim>\<open>str.strip()\<close> and \<^verbatim>\<open>str.split(sep)\<close>
  for a separator of one character.
\<close>

definition isspace :: "char \<Rightarrow> bool" where
  "isspace c = (of_char c \<in> {9, 10, 11, 12, 13, 28, 29, 30, 31, 32, 133, 160 :: nat})"

definition strip :: "string \<Rightarrow> string" where
  "strip s = rev (dropWhile isspace (rev (dropWhile isspace s)))"

fun split :: "char \<Rightarrow> string \<Rightarrow> string list" where
  "split sep [] = [[]]"
| "split sep (c # cs) =
     (if c = sep then [] # split sep cs
      else (case split sep cs of [] \<Rightarrow> [[c]] | w # ws \<Rightarrow> (c # w) # ws))"

text \<open>\<^verbatim>\<open>sep = ';' if os.name == 'nt' else ':'\<close>\<close>

definition sep :: "environment \<Rightarrow> char" where
  "sep env = (if os_name env = ''nt'' then CHR '';'' else CHR '':'')"

text \<open>\<^verbatim>\<open>[r.strip() for r in roots_str.split(sep) if r.strip()]\<close>\<close>

definition split_roots :: "environment \<Rightarrow> string \<Rightarrow> string list" where
  "split_roots env roots_str =
     map strip (filter (\<lambda>r. strip r \<noteq> []) (split (sep env) roots_str))"

subsection \<open>The fingerprint collector\<close>

text \<open>
  The loop over \<^verbatim>\<open>root.iterdir()\<close> (lines 64 to 66). It runs inside the \<^verbatim>\<open>try\<close>, so it
  returns the exception that stopped it, if any, together with the dictionary as the
  assignments made so far have left it.
\<close>

fun scan_children :: "filesystem \<Rightarrow> path list \<Rightarrow> mtimes \<Rightarrow> py_error option \<times> mtimes" where
  "scan_children fs [] m = (None, m)"
| "scan_children fs (child # rest) m =
     (case Path_is_dir fs child of
        Inl e \<Rightarrow> (Some e, m)
      | Inr True \<Rightarrow>
          (case stat_mtime fs child of
             Inl e \<Rightarrow> (Some e, m)
           | Inr t \<Rightarrow> scan_children fs rest (setitem m child t))
      | Inr False \<Rightarrow> scan_children fs rest m)"

text \<open>The body of the \<^verbatim>\<open>try\<close> (lines 63 to 66) for one root.\<close>

definition try_root :: "filesystem \<Rightarrow> path \<Rightarrow> mtimes \<Rightarrow> py_error option \<times> mtimes" where
  "try_root fs r m =
     (case stat_mtime fs r of
        Inl e \<Rightarrow> (Some e, m)
      | Inr t \<Rightarrow>
          (case iterdir fs r of
             Inl e \<Rightarrow> (Some e, setitem m r t)
           | Inr children \<Rightarrow> scan_children fs children (setitem m r t)))"

text \<open>
  One pass of the loop over the roots (lines 58 to 68). \<^verbatim>\<open>root.is_dir()\<close> on line 60 is
  outside the \<^verbatim>\<open>try\<close>: an exception it raises leaves the function. Inside the \<^verbatim>\<open>try\<close>,
  \<^verbatim>\<open>except OSError\<close> logs and goes on with the next root, and any other exception leaves
  the function.
\<close>

definition scan_root :: "environment \<Rightarrow> filesystem \<Rightarrow> string \<Rightarrow> mtimes \<Rightarrow> py_error + mtimes" where
  "scan_root env fs root_str m =
     (let r = Path_str env root_str in
      case Path_is_dir fs r of
        Inl e \<Rightarrow> Inl e
      | Inr False \<Rightarrow> Inr m
      | Inr True \<Rightarrow>
          (case try_root fs r m of
             (None, m') \<Rightarrow> Inr m'
           | (Some OSError, m') \<Rightarrow> Inr m'
           | (Some e, m') \<Rightarrow> Inl e))"

fun scan_roots :: "environment \<Rightarrow> filesystem \<Rightarrow> string list \<Rightarrow> mtimes \<Rightarrow> py_error + mtimes" where
  "scan_roots env fs [] m = Inr m"
| "scan_roots env fs (root_str # rest) m =
     (case scan_root env fs root_str m of
        Inl e \<Rightarrow> Inl e
      | Inr m' \<Rightarrow> scan_roots env fs rest m')"

definition scan_mtimes :: "environment \<Rightarrow> filesystem \<Rightarrow> string list \<Rightarrow> py_error + mtimes" where
  "scan_mtimes env fs roots = scan_roots env fs roots []"

subsection \<open>The cache files\<close>

text \<open>
  A cache file is represented by what \<^verbatim>\<open>json.loads(path.read_text(encoding='utf-8'))\<close>
  makes of it: \<open>Doc j\<close> when the text is read and parsed to the value \<open>j\<close>, \<open>Garbage\<close> when
  reading or parsing raises. Writing \<^verbatim>\<open>json.dumps(v, indent=2)\<close> leaves a file that loads
  to \<open>v\<close> again. A slot that is \<open>None\<close> is a file for which \<^verbatim>\<open>Path.exists\<close> answers
  \<^verbatim>\<open>False\<close>; \<^verbatim>\<open>Path.exists\<close> on the two cache paths is taken to answer.

  The state holds the directory tree that the fingerprint is taken from, the two cache
  files, and the number of calls of \<^verbatim>\<open>envoy.discover_bundles_auto\<close> so far.
\<close>

datatype content = Garbage | Doc json

record state =
  tree :: filesystem
  bundles_file :: "content option"
  meta_file :: "content option"
  scans :: nat

text \<open>
  Python's \<^verbatim>\<open>t == v\<close> for a float \<open>t\<close> and a loaded JSON value \<open>v\<close>: numbers compare by
  value, and \<^verbatim>\<open>True\<close> and \<^verbatim>\<open>False\<close> are the integers 1 and 0.
\<close>

fun eq_float :: "mtime \<Rightarrow> json \<Rightarrow> bool" where
  "eq_float t (JNum x) = (t = x)"
| "eq_float t (JBool b) = (t = (if b then 1 else 0))"
| "eq_float t v = False"

text \<open>
  Python's \<^verbatim>\<open>m == v\<close> for the dict \<open>m\<close> of \<^verbatim>\<open>_scan_mtimes\<close> and a loaded JSON value
  \<open>v\<close>: \<open>v\<close> is a dict with as many keys, and every key of \<open>m\<close> is a key of \<open>v\<close> with an equal
  value.
\<close>

fun dict_eq :: "mtimes \<Rightarrow> json \<Rightarrow> bool" where
  "dict_eq m (JObj d) =
     (length (remdups (map fst m)) = length (remdups (map fst d)) \<and>
      list_all (\<lambda>k. case map_of d k of
                       None \<Rightarrow> False
                     | Some v \<Rightarrow> (case map_of m k of None \<Rightarrow> False | Some t \<Rightarrow> eq_float t v))
               (map fst m))"
| "dict_eq m v = False"

text \<open>The values handed to \<^verbatim>\<open>json.dumps\<close> (lines 125 and 133 to 136).\<close>

definition bundles_json :: "path list \<Rightarrow> json" where
  "bundles_json bundle_paths = JObj [(''bundles'', JArr (map JStr bundle_paths))]"

definition mtimes_json :: "mtimes \<Rightarrow> json" where
  "mtimes_json m = JObj (map (\<lambda>(k, t). (k, JNum t)) m)"

definition meta_json :: "string \<Rightarrow> mtimes \<Rightarrow> json" where
  "meta_json roots_str m =
     JObj [(''bndl_roots'', JStr roots_str), (''depth2_mtimes'', mtimes_json m)]"

subsection \<open>The staleness check\<close>

text \<open>
  \<^verbatim>\<open>_is_stale\<close> (lines 72 to 92). \<^verbatim>\<open>meta.get\<close> exists only on a dict: for any other
  loaded value the attribute lookup raises \<^verbatim>\<open>AttributeError\<close>, outside the \<^verbatim>\<open>try\<close>.
  \<^verbatim>\<open>meta.get('bndl_roots')\<close> is \<^verbatim>\<open>None\<close> for a missing key, and
  \<^verbatim>\<open>meta.get('depth2_mtimes', {})\<close> is the empty dict then.
\<close>

definition is_stale :: "environment \<Rightarrow> state \<Rightarrow> string \<Rightarrow> py_error + bool" where
  "is_stale env s roots_str =
     (if bundles_file s = None \<or> meta_file s = None then Inr True
      else (case meta_file s of
              None \<Rightarrow> Inr True
            | Some Garbage \<Rightarrow> Inr True
            | Some (Doc (JObj meta)) \<Rightarrow>
                if map_of meta ''bndl_roots'' \<noteq> Some (JStr roots_str) then Inr True
                else (case scan_mtimes env (tree s) (split_roots env roots_str) of
                        Inl e \<Rightarrow> Inl e
                      | Inr m \<Rightarrow>
                          if \<not> dict_eq m (case map_of meta ''depth2_mtimes'' of
                                             None \<Rightarrow> JObj []
                                           | Some v \<Rightarrow> v)
                          then Inr True
                          else Inr False)
            | Some (Doc v) \<Rightarrow> Inl AttributeError))"

subsection \<open>The cache manager\<close>

text \<open>
  What the writing calls of one regeneration do: whether
  \<^verbatim>\<open>_CONFIG_DIR.mkdir(parents=True, exist_ok=True)\<close> raises \<^verbatim>\<open>OSError\<close>, and for each
  \<^verbatim>\<open>write_text\<close> whether it writes the file or raises \<^verbatim>\<open>OSError\<close>, leaving the given
  content (or no file) at the path.

  Each of the three calls can also change the directory tree that the collector reads:
  a directory that is created appears in the tree, and a directory that receives a new
  entry gets a new modification time; a file that is overwritten changes no directory.
  \<open>mkdir_tree\<close>, \<open>bundles_tree\<close> and \<open>meta_tree\<close> give the tree after the call from the
  tree before it. They are the identity when the cache directory is not among the roots
  and their children.
\<close>

datatype write_text = Written | Raises "content option"

record writes =
  mkdir_raises :: bool
  mkdir_tree :: "filesystem \<Rightarrow> filesystem"
  bundles_write :: write_text
  bundles_tree :: "filesystem \<Rightarrow> filesystem"
  meta_write :: write_text
  meta_tree :: "filesystem \<Rightarrow> filesystem"

text \<open>
  The regeneration (lines 119 to 141): the scan, the cache directory, the Result File,
  then the fingerprint of the current roots and the Metadata File. The fingerprint is an
  argument of \<^verbatim>\<open>json.dumps\<close> on line 135: it is taken from the tree as \<^verbatim>\<open>mkdir\<close> and the
  write of the Result File have left it, before the Metadata File is written. An
  exception leaves the function at once, with the tree and the files as the calls
  before it have left them.
\<close>

definition regenerate ::
  "environment \<Rightarrow> writes \<Rightarrow> string \<Rightarrow> state \<Rightarrow> (py_error + path) \<times> state" where
  "regenerate env io roots_str s =
     (let bundle_paths = map root (discover_bundles_auto env);
          s1 = s\<lparr>scans := Suc (scans s), tree := mkdir_tree io (tree s)\<rparr>
      in if mkdir_raises io then (Inl OSError, s1)
         else (let s2 = s1\<lparr>tree := bundles_tree io (tree s1)\<rparr>
               in case bundles_write io of
                    Raises left \<Rightarrow> (Inl OSError, s2\<lparr>bundles_file := left\<rparr>)
                  | Written \<Rightarrow>
                      (let s3 = s2\<lparr>bundles_file := Some (Doc (bundles_json bundle_paths))\<rparr>
                       in case scan_mtimes env (tree s3) (split_roots env roots_str) of
                            Inl e \<Rightarrow> (Inl e, s3)
                          | Inr m \<Rightarrow>
                              (let s4 = s3\<lparr>tree := meta_tree io (tree s3)\<rparr>
                               in case meta_write io of
                                    Raises left \<Rightarrow> (Inl OSError, s4\<lparr>meta_file := left\<rparr>)
                                  | Written \<Rightarrow>
                                      (Inr (LOCAL_BUNDLES_PATH env),
                                       s4\<lparr>meta_file :=
                                            Some (Doc (meta_json roots_str m))\<rparr>)))))"

text \<open>\<^verbatim>\<open>roots_str = os.environ.get('ENVOY_BNDL_ROOTS', '')\<close>\<close>

definition roots_str_of :: "environment \<Rightarrow> string" where
  "roots_str_of env = (case ENVOY_BNDL_ROOTS env of None \<Rightarrow> [] | Some v \<Rightarrow> v)"

text \<open>
  \<^verbatim>\<open>write_local_bundles\<close> (lines 99 to 141). With \<^verbatim>\<open>force\<close>, the \<^verbatim>\<open>and\<close> of line 115 does
  not evaluate \<^verbatim>\<open>_is_stale\<close>.
\<close>

definition write_local_bundles ::
  "environment \<Rightarrow> writes \<Rightarrow> bool \<Rightarrow> state \<Rightarrow> (py_error + path) \<times> state" where
  "write_local_bundles env io force s =
     (let roots_str = roots_str_of env
      in case (if force then Inr True else is_stale env s roots_str) of
           Inl e \<Rightarrow> (Inl e, s)
         | Inr False \<Rightarrow> (Inr (LOCAL_BUNDLES_PATH env), s)
         | Inr True \<Rightarrow> regenerate env io roots_str s)"

subsection \<open>What the collector records\<close>

text \<open>
  The keys that the loop over the children assigns before it ends or is stopped: the
  entries that are directories, up to the first entry whose \<^verbatim>\<open>is_dir\<close> raises or that
  is a directory whose \<^verbatim>\<open>stat\<close> raises.
\<close>

fun recorded_children :: "filesystem \<Rightarrow> path list \<Rightarrow> path list" where
  "recorded_children fs [] = []"
| "recorded_children fs (c # cs) =
     (if is_dir_raises fs c then []
      else if is_dir fs c then (if stat_raises fs c then [] else c # recorded_children fs cs)
      else recorded_children fs cs)"

text \<open>
  The keys that one pass of the loop over the roots assigns, when \<^verbatim>\<open>is_dir\<close> answers for
  the root.
\<close>

definition recorded :: "environment \<Rightarrow> filesystem \<Rightarrow> string \<Rightarrow> path list" where
  "recorded env fs root_str =
     (let r = Path_str env root_str
      in if is_dir fs r \<and> \<not> stat_raises fs r
         then r # (if iterdir_raises fs r then [] else recorded_children fs (entries fs r))
         else [])"

text \<open>
  The Fingerprint as the specification words it: every root that is a directory, and
  every entry of such a root that is a directory, with its last-modified time; nothing
  else.
\<close>

definition fingerprint_spec ::
  "environment \<Rightarrow> filesystem \<Rightarrow> string list \<Rightarrow> path \<Rightarrow> mtime option" where
  "fingerprint_spec env fs roots p =
     (if list_ex (\<lambda>root_str. let r = Path_str env root_str
                             in is_dir fs r \<and> (p = r \<or> (p \<in> set (entries fs r) \<and> is_dir fs p)))
                 roots
      then Some (st_mtime fs p) else None)"

text \<open>
  No call of \<^verbatim>\<open>is_dir\<close>, \<^verbatim>\<open>stat\<close> or \<^verbatim>\<open>iterdir\<close> that the collector makes for these roots
  raises.
\<close>

definition no_os_failure :: "environment \<Rightarrow> filesystem \<Rightarrow> string list \<Rightarrow> bool" where
  "no_os_failure env fs roots =
     list_all (\<lambda>root_str. let r = Path_str env root_str
                           in \<not> is_dir_raises fs r \<and>
                              (is_dir fs r \<longrightarrow>
                                 \<not> stat_raises fs r \<and> \<not> iterdir_raises fs r \<and>
                                 list_all (\<lambda>c. \<not> is_dir_raises fs c \<and>
                                                (is_dir fs c \<longrightarrow> \<not> stat_raises fs c))
                                          (entries fs r)))
              roots"

text \<open>\<^verbatim>\<open>is_dir\<close> answers for every root of the list (line 60 does not raise).\<close>

definition roots_answer :: "environment \<Rightarrow> filesystem \<Rightarrow> string list \<Rightarrow> bool" where
  "roots_answer env fs roots =
     list_all (\<lambda>root_str. \<not> is_dir_raises fs (Path_str env root_str)) roots"

text \<open>
  The tree that line 135 takes the fingerprint from, and the condition that the write
  of the Metadata File after it leaves that fingerprint as it was taken.
\<close>

definition tree_at_fingerprint :: "writes \<Rightarrow> filesystem \<Rightarrow> filesystem" where
  "tree_at_fingerprint io t = bundles_tree io (mkdir_tree io t)"

definition fingerprint_kept :: "environment \<Rightarrow> writes \<Rightarrow> state \<Rightarrow> bool" where
  "fingerprint_kept env io s =
     (scan_mtimes env (meta_tree io (tree_at_fingerprint io (tree s)))
          (split_roots env (roots_str_of env)) =
      scan_mtimes env (tree_at_fingerprint io (tree s)) (split_roots env (roots_str_of env)))"

text \<open>A directory that receives a new entry at a given time.\<close>

definition touch :: "path \<Rightarrow> mtime \<Rightarrow> filesystem \<Rightarrow> filesystem" where
  "touch p t fs = fs\<lparr>st_mtime := (st_mtime fs)(p := t)\<rparr>"

subsection \<open>A small installation\<close>

text \<open>
  A POSIX machine with \<^verbatim>\<open>ENVOY_BNDL_ROOTS="/r: /q :"\<close>, whose scan finds the bundles
  \<^verbatim>\<open>x\<close> and \<^verbatim>\<open>y\<close>. \<^verbatim>\<open>/r\<close> is a directory that holds the directory \<^verbatim>\<open>/r/a\<close> and the file
  \<^verbatim>\<open>/r/f\<close>; \<^verbatim>\<open>/q\<close> does not exist. The paths are written as pathlib prints them.
\<close>

definition posix :: environment where
  "posix = \<lparr>os_name = ''posix'', ENVOY_BNDL_ROOTS = Some ''/r: /q :'',
     Path_str = (\<lambda>s. s), LOCAL_BUNDLES_PATH = ''local_bundles.json'',
     discover_bundles_auto = [\<lparr>root = ''x''\<rparr>, \<lparr>root = ''y''\<rparr>]\<rparr>"

definition tree0 :: filesystem where
  "tree0 = \<lparr>is_dir = (\<lambda>p. p = ''/r'' \<or> p = ''/r/a''),
     is_dir_raises = (\<lambda>p. False),
     st_mtime = (\<lambda>p. if p = ''/r'' then 5 else 7),
     stat_raises = (\<lambda>p. False),
     entries = (\<lambda>p. if p = ''/r'' then [''/r/a'', ''/r/f''] else []),
     iterdir_raises = (\<lambda>p. False)\<rparr>"

text \<open>The same tree when \<^verbatim>\<open>/r\<close> may not be listed, and when its status may not be read.\<close>

definition tree_unlistable :: filesystem where
  "tree_unlistable = tree0\<lparr>iterdir_raises := (\<lambda>p. p = ''/r'')\<rparr>"

definition tree_unreadable :: filesystem where
  "tree_unreadable = tree0\<lparr>stat_raises := (\<lambda>p. p = ''/r'')\<rparr>"

text \<open>
  The same tree when \<^verbatim>\<open>is_dir\<close> of \<^verbatim>\<open>/q\<close> raises, as it does up to CPython 3.12 when a
  directory on the way to \<^verbatim>\<open>/q\<close> may not be searched.
\<close>

definition tree_unsearchable :: filesystem where
  "tree_unsearchable = tree0\<lparr>is_dir_raises := (\<lambda>p. p = ''/q'')\<rparr>"

text \<open>
  A tree in which \<^verbatim>\<open>/r\<close> holds the directories \<^verbatim>\<open>/r/a\<close>, \<^verbatim>\<open>/r/b\<close> and \<^verbatim>\<open>/r/c\<close>, in this
  order, and \<^verbatim>\<open>stat\<close> of \<^verbatim>\<open>/r/b\<close> raises.
\<close>

definition tree_vanishing :: filesystem where
  "tree_vanishing = \<lparr>is_dir = (\<lambda>p. p = ''/r'' \<or> p = ''/r/a'' \<or> p = ''/r/b'' \<or> p = ''/r/c''),
     is_dir_raises = (\<lambda>p. False),
     st_mtime = (\<lambda>p. if p = ''/r'' then 5 else 7),
     stat_raises = (\<lambda>p. p = ''/r/b''),
     entries = (\<lambda>p. if p = ''/r'' then [''/r/a'', ''/r/b'', ''/r/c''] else []),
     iterdir_raises = (\<lambda>p. False)\<rparr>"

text \<open>
  Writes that all succeed and change no tracked directory, and such writes of which the
  last raises. The cache before the first run, and after it; a cache whose Result File is
  from an older scan; caches whose Metadata File holds the JSON array \<^verbatim>\<open>[]\<close>, holds the
  JSON value \<^verbatim>\<open>null\<close>, holds text that is not JSON, and holds an object without
  \<^verbatim>\<open>depth2_mtimes\<close>; and the machine with \<^verbatim>\<open>ENVOY_BNDL_ROOTS="/q"\<close>.
\<close>

definition all_written :: writes where
  "all_written = \<lparr>mkdir_raises = False, mkdir_tree = (\<lambda>t. t),
     bundles_write = Written, bundles_tree = (\<lambda>t. t),
     meta_write = Written, meta_tree = (\<lambda>t. t)\<rparr>"

definition meta_write_fails :: writes where
  "meta_write_fails = all_written\<lparr>meta_write := Raises None\<rparr>"

definition cold :: state where
  "cold = \<lparr>tree = tree0, bundles_file = None, meta_file = None, scans = 0\<rparr>"

definition warm :: state where
  "warm = \<lparr>tree = tree0,
     bundles_file = Some (Doc (JObj [(''bundles'', JArr [JStr ''x'', JStr ''y''])])),
     meta_file = Some (Doc (JObj [(''bndl_roots'', JStr ''/r: /q :''),
                                  (''depth2_mtimes'', JObj [(''/r'', JNum 5), (''/r/a'', JNum 7)])])),
     scans = 1\<rparr>"

definition warm_old :: state where
  "warm_old = warm\<lparr>bundles_file := Some (Doc (JObj [(''bundles'', JArr [JStr ''old''])]))\<rparr>"

definition list_meta :: state where
  "list_meta = warm\<lparr>meta_file := Some (Doc (JArr []))\<rparr>"

definition null_meta :: state where
  "null_meta = warm\<lparr>meta_file := Some (Doc JNull)\<rparr>"

definition garbled :: state where
  "garbled = warm\<lparr>meta_file := Some Garbage\<rparr>"

definition bare_meta :: state where
  "bare_meta = warm\<lparr>meta_file := Some (Doc (JObj [(''bndl_roots'', JStr ''/q'')]))\<rparr>"

definition only_q :: environment where
  "only_q = posix\<lparr>ENVOY_BNDL_ROOTS := Some ''/q''\<rparr>"

text \<open>
  The machine whose cache directory is \<^verbatim>\<open>/r/a\<close>, a child of its only root \<^verbatim>\<open>/r\<close>, and
  the writes of a first run there: the directory exists, the Result File is created in
  it at time 8 and the Metadata File at time 9.
\<close>

definition nested :: environment where
  "nested = posix\<lparr>ENVOY_BNDL_ROOTS := Some ''/r'',
     LOCAL_BUNDLES_PATH := ''/r/a/local_bundles.json''\<rparr>"

definition creating :: writes where
  "creating = all_written\<lparr>bundles_tree := touch ''/r/a'' 8, meta_tree := touch ''/r/a'' 9\<rparr>"

text \<open>
  The cache that the first run leaves there. Writes of a first run whose cache
  directory \<^verbatim>\<open>/cache\<close> is neither a root nor a child of a root, and the cache that they
  leave on the small installation.
\<close>

definition nested_warm :: state where
  "nested_warm = \<lparr>tree = touch ''/r/a'' 9 (touch ''/r/a'' 8 tree0),
     bundles_file = Some (Doc (JObj [(''bundles'', JArr [JStr ''x'', JStr ''y''])])),
     meta_file = Some (Doc (JObj [(''bndl_roots'', JStr ''/r''),
                                  (''depth2_mtimes'', JObj [(''/r'', JNum 5), (''/r/a'', JNum 8)])])),
     scans = 1\<rparr>"

definition creating_elsewhere :: writes where
  "creating_elsewhere =
     all_written\<lparr>bundles_tree := touch ''/cache'' 8, meta_tree := touch ''/cache'' 9\<rparr>"

definition warm_elsewhere :: state where
  "warm_elsewhere = warm\<lparr>tree := touch ''/cache'' 9 (touch ''/cache'' 8 tree0)\<rparr>"
section \<open>Properties\<close>

subsection \<open>The dictionary that the collector builds\<close>

lemma map_of_setitem: "map_of (setitem m k v) = (map_of m)(k \<mapsto> v)"
  by (induction m k v rule: setitem.induct) (auto simp: fun_eq_iff)

lemma scan_children_Cons:
  "scan_children fs (c # cs) m =
     (if is_dir_raises fs c then (Some OSError, m)
      else if is_dir fs c
           then (if stat_raises fs c then (Some OSError, m)
                 else scan_children fs cs (setitem m c (st_mtime fs c)))
           else scan_children fs cs m)"
  by (cases "is_dir fs c") (simp_all add: Path_is_dir_def stat_mtime_def)

lemma scan_children_error:
  "fst (scan_children fs cs m) = None \<or> fst (scan_children fs cs m) = Some OSError"
  by (induction cs arbitrary: m) (simp_all add: scan_children_Cons del: scan_children.simps(2))

lemma scan_children_map:
  "map_of (snd (scan_children fs cs m)) =
     (\<lambda>k. if k \<in> set (recorded_children fs cs) then Some (st_mtime fs k) else map_of m k)"
  by (induction cs arbitrary: m)
    (auto simp: scan_children_Cons map_of_setitem fun_eq_iff simp del: scan_children.simps(2))

lemma try_root_error: "fst (try_root fs r m) = None \<or> fst (try_root fs r m) = Some OSError"
  using scan_children_error [of fs "entries fs r" "setitem m r (st_mtime fs r)"]
  by (auto simp: try_root_def stat_mtime_def iterdir_def)

lemma scan_root_eq:
  "scan_root env fs root_str m =
     (if is_dir_raises fs (Path_str env root_str) then Inl OSError
      else Inr (if is_dir fs (Path_str env root_str)
                then snd (try_root fs (Path_str env root_str) m) else m))"
  using try_root_error [of fs "Path_str env root_str" m]
  by (cases "is_dir fs (Path_str env root_str)")
    (auto simp: scan_root_def Path_is_dir_def Let_def
      split: prod.splits option.splits py_error.splits)

lemma try_root_map:
  "is_dir fs (Path_str env root_str) \<Longrightarrow> map_of (snd (try_root fs (Path_str env root_str) m)) =
     (\<lambda>k. if k \<in> set (recorded env fs root_str) then Some (st_mtime fs k) else map_of m k)"
  by (auto simp: try_root_def recorded_def Let_def stat_mtime_def iterdir_def scan_children_map
        map_of_setitem fun_eq_iff)

lemma scan_root_map:
  assumes "\<not> is_dir_raises fs (Path_str env root_str)"
  shows "\<exists>m'. scan_root env fs root_str m = Inr m' \<and>
     map_of m' = (\<lambda>k. if k \<in> set (recorded env fs root_str) then Some (st_mtime fs k) else map_of m k)"
proof (cases "is_dir fs (Path_str env root_str)")
  case True
  then show ?thesis using assms by (simp add: scan_root_eq try_root_map)
next
  case False
  then show ?thesis using assms by (simp add: scan_root_eq recorded_def)
qed

lemma scan_roots_map:
  assumes "roots_answer env fs roots"
  shows "\<exists>m'. scan_roots env fs roots m = Inr m' \<and>
     map_of m' = (\<lambda>k. if k \<in> (\<Union>r \<in> set roots. set (recorded env fs r)) then Some (st_mtime fs k)
                       else map_of m k)"
  using assms
proof (induction roots arbitrary: m)
  case Nil
  then show ?case by simp
next
  case (Cons r roots)
  from Cons.prems have r: "\<not> is_dir_raises fs (Path_str env r)" and rest: "roots_answer env fs roots"
    by (simp_all add: roots_answer_def)
  obtain m1 where m1: "scan_root env fs r m = Inr m1"
    "map_of m1 = (\<lambda>k. if k \<in> set (recorded env fs r) then Some (st_mtime fs k) else map_of m k)"
    using scan_root_map [OF r] by blast
  obtain m2 where m2: "scan_roots env fs roots m1 = Inr m2"
    "map_of m2 = (\<lambda>k. if k \<in> (\<Union>r \<in> set roots. set (recorded env fs r)) then Some (st_mtime fs k)
                       else map_of m1 k)"
    using Cons.IH [OF rest] by blast
  show ?case using m1 m2 by (auto simp: fun_eq_iff)
qed

lemma scan_roots_raises:
  "\<not> roots_answer env fs roots \<Longrightarrow> scan_roots env fs roots m = Inl OSError"
proof (induction roots arbitrary: m)
  case Nil
  then show ?case by (simp add: roots_answer_def)
next
  case (Cons r roots)
  show ?case
  proof (cases "is_dir_raises fs (Path_str env r)")
    case True
    then show ?thesis by (simp add: scan_root_eq)
  next
    case False
    then have "\<not> roots_answer env fs roots"
      using Cons.prems by (simp add: roots_answer_def)
    then show ?thesis using False Cons.IH by (simp add: scan_root_eq)
  qed
qed

lemma scan_mtimes_map:
  assumes "roots_answer env fs roots"
  shows "\<exists>m. scan_mtimes env fs roots = Inr m \<and>
     map_of m = (\<lambda>k. if k \<in> (\<Union>r \<in> set roots. set (recorded env fs r)) then Some (st_mtime fs k)
                      else None)"
  using scan_roots_map [OF assms, of "[]"] by (auto simp: scan_mtimes_def fun_eq_iff)

lemma scan_mtimes_raises:
  "\<not> roots_answer env fs roots \<Longrightarrow> scan_mtimes env fs roots = Inl OSError"
  by (simp add: scan_mtimes_def scan_roots_raises)

lemma scan_mtimes_error: "scan_mtimes env fs roots = Inl e \<Longrightarrow> e = OSError"
  using scan_mtimes_map [of env fs roots] scan_mtimes_raises [of env fs roots]
  by (cases "roots_answer env fs roots") auto

lemma map_of_mtimes_json:
  "map_of (map (\<lambda>(k, t). (k, JNum t)) m) k = map_option JNum (map_of m k)"
  by (induction m) auto

lemma fst_mtimes_json: "map fst (map (\<lambda>(k, t). (k, JNum t)) m) = map fst m"
  by (induction m) auto

lemma dict_eq_mtimes_json_unfold:
  "dict_eq m (mtimes_json m') \<longleftrightarrow>
     card (fst ` set m) = card (fst ` set m') \<and>
     (\<forall>k \<in> fst ` set m. \<exists>t. map_of m' k = Some t \<and> map_of m k = Some t)"
proof -
  have "dict_eq m (mtimes_json m') \<longleftrightarrow>
     length (remdups (map fst m)) = length (remdups (map fst m')) \<and>
     list_all (\<lambda>k. case map_option JNum (map_of m' k) of
                       None \<Rightarrow> False
                     | Some v \<Rightarrow> (case map_of m k of None \<Rightarrow> False | Some t \<Rightarrow> eq_float t v))
              (map fst m)"
    unfolding mtimes_json_def dict_eq.simps fst_mtimes_json map_of_mtimes_json ..
  moreover have "\<And>k. (case map_option JNum (map_of m' k) of
                       None \<Rightarrow> False
                     | Some v \<Rightarrow> (case map_of m k of None \<Rightarrow> False | Some t \<Rightarrow> eq_float t v))
       \<longleftrightarrow> (\<exists>t. map_of m' k = Some t \<and> map_of m k = Some t)"
    subgoal for k by (cases "map_of m' k"; cases "map_of m k"; auto) done
  ultimately show ?thesis
    by (simp add: length_remdups_card_conv list_all_iff)
qed

lemma dict_eq_mtimes_json: "dict_eq m (mtimes_json m') \<longleftrightarrow> map_of m = map_of m'"
proof
  assume eq: "dict_eq m (mtimes_json m')"
  then have card: "card (fst ` set m) = card (fst ` set m')"
    by (simp add: dict_eq_mtimes_json_unfold)
  have each: "\<And>k. k \<in> fst ` set m \<Longrightarrow> map_of m' k = map_of m k \<and> map_of m k \<noteq> None"
    using eq by (auto simp: dict_eq_mtimes_json_unfold)
  then have "fst ` set m \<subseteq> fst ` set m'"
    by (metis map_of_eq_None_iff subsetI)
  then have keys: "fst ` set m = fst ` set m'"
    using card by (simp add: card_subset_eq)
  show "map_of m = map_of m'"
  proof
    fix k
    show "map_of m k = map_of m' k"
    proof (cases "k \<in> fst ` set m")
      case True
      then show ?thesis using each by simp
    next
      case False
      then show ?thesis using keys by (metis map_of_eq_None_iff)
    qed
  qed
next
  assume eq: "map_of m = map_of m'"
  then have "dom (map_of m) = dom (map_of m')" by simp
  then have keys: "fst ` set m = fst ` set m'" by (simp add: dom_map_of_conv_image_fst)
  moreover have "\<And>k. k \<in> fst ` set m \<Longrightarrow> \<exists>t. map_of m' k = Some t \<and> map_of m k = Some t"
    using eq by (metis map_of_eq_None_iff not_Some_eq)
  ultimately show "dict_eq m (mtimes_json m')"
    by (simp add: dict_eq_mtimes_json_unfold)
qed

lemma dict_eq_empty: "dict_eq m (JObj []) \<longleftrightarrow> m = []"
  by (cases m) auto

lemma recorded_children_no_failure:
  "list_all (\<lambda>c. \<not> is_dir_raises fs c \<and> (is_dir fs c \<longrightarrow> \<not> stat_raises fs c)) cs \<Longrightarrow>
     set (recorded_children fs cs) = {c \<in> set cs. is_dir fs c}"
  by (induction cs) auto

lemma recorded_no_failure:
  assumes "no_os_failure env fs roots" "root_str \<in> set roots"
  shows "set (recorded env fs root_str) =
           (if is_dir fs (Path_str env root_str)
            then insert (Path_str env root_str)
                   {c \<in> set (entries fs (Path_str env root_str)). is_dir fs c}
            else {})"
proof -
  let ?r = "Path_str env root_str"
  show ?thesis
  proof (cases "is_dir fs ?r")
    case True
    then have ok: "\<not> stat_raises fs ?r" "\<not> iterdir_raises fs ?r"
      and cs: "list_all (\<lambda>c. \<not> is_dir_raises fs c \<and> (is_dir fs c \<longrightarrow> \<not> stat_raises fs c))
                 (entries fs ?r)"
      using assms by (auto simp: no_os_failure_def Let_def list_all_iff)
    show ?thesis
      using True ok recorded_children_no_failure [OF cs] by (simp add: recorded_def Let_def)
  next
    case False
    then show ?thesis by (simp add: recorded_def Let_def)
  qed
qed

lemma no_os_failure_answer: "no_os_failure env fs roots \<Longrightarrow> roots_answer env fs roots"
  by (auto simp: no_os_failure_def roots_answer_def Let_def list_all_iff)

lemma dict_eq_refl: "dict_eq m (mtimes_json m)"
  by (simp add: dict_eq_mtimes_json)

lemma scan_roots_no_dirs:
  "list_all (\<lambda>r. \<not> is_dir fs (Path_str env r)) roots \<Longrightarrow> scan_roots env fs roots m = Inr m' \<Longrightarrow>
     m' = m"
  by (induction roots) (auto simp: scan_root_eq split: if_splits)

lemma split_roots_posix: "split_roots posix ''/r: /q :'' = [''/r'', ''/q'']"
  by (simp add: split_roots_def posix_def sep_def strip_def isspace_def)

lemma scan_tree0: "scan_mtimes posix tree0 [''/r'', ''/q''] = Inr [(''/r'', 5), (''/r/a'', 7)]"
  by (simp add: scan_mtimes_def scan_root_def try_root_def Path_is_dir_def stat_mtime_def
      iterdir_def posix_def tree0_def)

lemmas collector_defs =
  scan_mtimes_def scan_root_def try_root_def Path_is_dir_def stat_mtime_def iterdir_def

subsection \<open>The fingerprint\<close>

text \<open>
  Claim C3, as amended. When no \<^verbatim>\<open>is_dir\<close>, \<^verbatim>\<open>stat\<close> or \<^verbatim>\<open>iterdir\<close> that the collector
  makes raises, \<^verbatim>\<open>_scan_mtimes\<close> returns a dictionary that maps exactly each root of the
  list that is a directory to its own last-modified time and each immediate child of
  such a root that is itself a directory to its last-modified time. Roots that are not
  directories contribute nothing, and entries that are not directories contribute
  nothing.
\<close>

theorem fingerprint_without_os_failure:
  assumes "no_os_failure env fs roots"
  shows "\<exists>m. scan_mtimes env fs roots = Inr m \<and> map_of m = fingerprint_spec env fs roots"
proof -
  obtain m where m: "scan_mtimes env fs roots = Inr m"
    "map_of m = (\<lambda>k. if k \<in> (\<Union>r \<in> set roots. set (recorded env fs r)) then Some (st_mtime fs k)
                      else None)"
    using scan_mtimes_map [OF no_os_failure_answer [OF assms]] by blast
  have "map_of m p = fingerprint_spec env fs roots p" for p
    using recorded_no_failure [OF assms]
    by (auto simp: m(2) fingerprint_spec_def list_ex_iff Let_def split: if_splits)
  then show ?thesis using m(1) by auto
qed

text \<open>
  On the small installation the fingerprint is \<^verbatim>\<open>{"/r": 5, "/r/a": 7}\<close>: the file
  \<^verbatim>\<open>/r/f\<close> and the missing root \<^verbatim>\<open>/q\<close> are not in it.
\<close>

theorem fingerprint_without_os_failure_witness:
  "no_os_failure posix tree0 [''/r'', ''/q''] \<and>
   scan_mtimes posix tree0 [''/r'', ''/q''] = Inr [(''/r'', 5), (''/r/a'', 7)] \<and>
   fingerprint_spec posix tree0 [''/r'', ''/q''] ''/r'' = Some 5 \<and>
   fingerprint_spec posix tree0 [''/r'', ''/q''] ''/r/a'' = Some 7 \<and>
   fingerprint_spec posix tree0 [''/r'', ''/q''] ''/r/f'' = None \<and>
   fingerprint_spec posix tree0 [''/r'', ''/q''] ''/q'' = None"
proof -
  have h: "no_os_failure posix tree0 [''/r'', ''/q'']"
    by (simp add: no_os_failure_def posix_def tree0_def)
  from fingerprint_without_os_failure [OF h] scan_tree0
  have "map_of [(''/r'', 5), (''/r/a'', 7)] = fingerprint_spec posix tree0 [''/r'', ''/q'']"
    by auto
  then have "\<And>p. fingerprint_spec posix tree0 [''/r'', ''/q''] p = map_of [(''/r'', 5), (''/r/a'', 7)] p"
    by simp
  then show ?thesis using h scan_tree0 by simp
qed

text \<open>
  As the claim is written, for every filesystem state, it fails where \<^verbatim>\<open>/r\<close> cannot be
  listed: \<^verbatim>\<open>/r/a\<close> is a directory and an entry of the directory \<^verbatim>\<open>/r\<close>, and the
  fingerprint \<^verbatim>\<open>{"/r": 5}\<close> has no key for it.
\<close>

theorem fingerprint_unlistable_root_counterexample:
  "is_dir tree_unlistable ''/r'' \<and>
   ''/r/a'' \<in> set (entries tree_unlistable ''/r'') \<and> is_dir tree_unlistable ''/r/a'' \<and>
   scan_mtimes posix tree_unlistable [''/r''] = Inr [(''/r'', 5)] \<and>
   map_of [(''/r'', 5 :: mtime)] ''/r/a'' = None \<and>
   fingerprint_spec posix tree_unlistable [''/r''] ''/r/a'' = Some 7"
  by (simp add: collector_defs
      fingerprint_spec_def posix_def tree0_def tree_unlistable_def)

text \<open>
  Claim C4, as amended. When \<^verbatim>\<open>Path.is_dir\<close> answers for every root (the call on line 60
  is outside the \<^verbatim>\<open>try\<close>), \<^verbatim>\<open>_scan_mtimes\<close> returns: an \<^verbatim>\<open>OSError\<close> from the root's
  \<^verbatim>\<open>stat\<close>, from \<^verbatim>\<open>iterdir\<close>, or from the \<^verbatim>\<open>is_dir\<close> or \<^verbatim>\<open>stat\<close> of a child is absorbed and
  the rest of that root is skipped. What was assigned before the failure stays, and
  nothing after it is added: the result holds exactly the keys of \<open>recorded\<close>, each with
  its last-modified time. A root whose own \<^verbatim>\<open>stat\<close> raises leaves the dictionary as it
  was; a root whose \<^verbatim>\<open>iterdir\<close> raises has its own time recorded; a child whose \<^verbatim>\<open>is_dir\<close>
  raises, or that is a directory whose \<^verbatim>\<open>stat\<close> raises, ends the loop over the children
  with the dictionary as it is, so that no later child is recorded.
\<close>

theorem scan_mtimes_absorbs_os_errors:
  assumes "roots_answer env fs roots"
  shows "(\<exists>fp. scan_mtimes env fs roots = Inr fp \<and>
            map_of fp = (\<lambda>k. if k \<in> (\<Union>r \<in> set roots. set (recorded env fs r))
                              then Some (st_mtime fs k) else None)) \<and>
   (\<not> is_dir_raises fs (Path_str env root_str) \<and> stat_raises fs (Path_str env root_str) \<longrightarrow>
      scan_root env fs root_str m = Inr m) \<and>
   (\<not> is_dir_raises fs (Path_str env root_str) \<and> is_dir fs (Path_str env root_str) \<and>
    \<not> stat_raises fs (Path_str env root_str) \<and> iterdir_raises fs (Path_str env root_str) \<longrightarrow>
      scan_root env fs root_str m =
        Inr (setitem m (Path_str env root_str) (st_mtime fs (Path_str env root_str)))) \<and>
   (\<not> is_dir_raises fs (Path_str env root_str) \<and> is_dir fs (Path_str env root_str) \<and>
    \<not> stat_raises fs (Path_str env root_str) \<and> \<not> iterdir_raises fs (Path_str env root_str) \<longrightarrow>
      scan_root env fs root_str m =
        Inr (snd (scan_children fs (entries fs (Path_str env root_str))
                    (setitem m (Path_str env root_str) (st_mtime fs (Path_str env root_str)))))) \<and>
   (is_dir_raises fs c \<or> is_dir fs c \<and> stat_raises fs c \<longrightarrow>
      scan_children fs (c # rest) m = (Some OSError, m)) \<and>
   (\<not> is_dir_raises fs c \<and> is_dir fs c \<and> \<not> stat_raises fs c \<longrightarrow>
      scan_children fs (c # rest) m = scan_children fs rest (setitem m c (st_mtime fs c))) \<and>
   (\<not> is_dir_raises fs c \<and> \<not> is_dir fs c \<longrightarrow>
      scan_children fs (c # rest) m = scan_children fs rest m)"
proof -
  let ?r = "Path_str env root_str"
  have a: "\<exists>fp. scan_mtimes env fs roots = Inr fp \<and>
            map_of fp = (\<lambda>k. if k \<in> (\<Union>r \<in> set roots. set (recorded env fs r))
                              then Some (st_mtime fs k) else None)"
    using scan_mtimes_map [OF assms] .
  have b: "\<not> is_dir_raises fs ?r \<and> stat_raises fs ?r \<longrightarrow> scan_root env fs root_str m = Inr m"
    by (simp add: scan_root_eq try_root_def stat_mtime_def)
  have c: "\<not> is_dir_raises fs ?r \<and> is_dir fs ?r \<and> \<not> stat_raises fs ?r \<and> iterdir_raises fs ?r \<longrightarrow>
      scan_root env fs root_str m = Inr (setitem m ?r (st_mtime fs ?r))"
    by (simp add: scan_root_eq try_root_def stat_mtime_def iterdir_def)
  have d: "\<not> is_dir_raises fs ?r \<and> is_dir fs ?r \<and> \<not> stat_raises fs ?r \<and> \<not> iterdir_raises fs ?r \<longrightarrow>
      scan_root env fs root_str m =
        Inr (snd (scan_children fs (entries fs ?r) (setitem m ?r (st_mtime fs ?r))))"
    by (simp add: scan_root_eq try_root_def stat_mtime_def iterdir_def)
  have e: "is_dir_raises fs c \<or> is_dir fs c \<and> stat_raises fs c \<longrightarrow>
      scan_children fs (c # rest) m = (Some OSError, m)"
    by (simp add: scan_children_Cons del: scan_children.simps(2))
  have f: "\<not> is_dir_raises fs c \<and> is_dir fs c \<and> \<not> stat_raises fs c \<longrightarrow>
      scan_children fs (c # rest) m = scan_children fs rest (setitem m c (st_mtime fs c))"
    by (simp add: scan_children_Cons del: scan_children.simps(2))
  have g: "\<not> is_dir_raises fs c \<and> \<not> is_dir fs c \<longrightarrow>
      scan_children fs (c # rest) m = scan_children fs rest m"
    by (simp add: scan_children_Cons del: scan_children.simps(2))
  show ?thesis using a b c d e f g by blast
qed

text \<open>
  In the tree where \<^verbatim>\<open>stat\<close> of \<^verbatim>\<open>/r/b\<close> raises, the fingerprint holds \<^verbatim>\<open>/r\<close> and \<^verbatim>\<open>/r/a\<close>
  and not the directory \<^verbatim>\<open>/r/c\<close> that comes after \<^verbatim>\<open>/r/b\<close>.
\<close>

theorem scan_mtimes_absorbs_os_errors_witness:
  "roots_answer posix tree_vanishing [''/r'', ''/q''] \<and>
   scan_mtimes posix tree_vanishing [''/r'', ''/q''] = Inr [(''/r'', 5), (''/r/a'', 7)] \<and>
   is_dir tree_vanishing ''/r/b'' \<and> stat_raises tree_vanishing ''/r/b'' \<and>
   is_dir tree_vanishing ''/r/c'' \<and> \<not> stat_raises tree_vanishing ''/r/c'' \<and>
   scan_children tree_vanishing [''/r/b'', ''/r/c''] [(''/r'', 5), (''/r/a'', 7)] =
     (Some OSError, [(''/r'', 5), (''/r/a'', 7)]) \<and>
   stat_raises tree_unreadable (Path_str posix ''/r'') \<and>
   scan_root posix tree_unreadable ''/r'' [(''/p'', 1)] = Inr [(''/p'', 1)] \<and>
   iterdir_raises tree_unlistable (Path_str posix ''/r'') \<and>
   scan_root posix tree_unlistable ''/r'' [(''/p'', 1)] = Inr [(''/p'', 1), (''/r'', 5)]"
proof -
  have h: "roots_answer posix tree_vanishing [''/r'', ''/q'']"
    by (simp add: roots_answer_def tree_vanishing_def)
  have s: "scan_mtimes posix tree_vanishing [''/r'', ''/q''] = Inr [(''/r'', 5), (''/r/a'', 7)]"
    by (simp add: collector_defs posix_def tree_vanishing_def)
  have v: "is_dir tree_vanishing ''/r/b'' \<and> stat_raises tree_vanishing ''/r/b'' \<and>
      is_dir tree_vanishing ''/r/c'' \<and> \<not> stat_raises tree_vanishing ''/r/c''"
    by (simp add: tree_vanishing_def)
  have u: "\<not> is_dir_raises tree_unreadable (Path_str posix ''/r'') \<and>
      stat_raises tree_unreadable (Path_str posix ''/r'')"
    by (simp add: tree_unreadable_def tree0_def posix_def)
  have l: "\<not> is_dir_raises tree_unlistable (Path_str posix ''/r'') \<and>
      is_dir tree_unlistable (Path_str posix ''/r'') \<and>
      \<not> stat_raises tree_unlistable (Path_str posix ''/r'') \<and>
      iterdir_raises tree_unlistable (Path_str posix ''/r'')"
    by (simp add: tree_unlistable_def tree0_def posix_def)
  have c: "setitem [(''/p'', 1)] (Path_str posix ''/r'')
        (st_mtime tree_unlistable (Path_str posix ''/r'')) = [(''/p'', 1), (''/r'', 5)]"
    by (simp add: tree_unlistable_def tree0_def posix_def)
  note t1 = scan_mtimes_absorbs_os_errors
    [OF h, of "''/r''" "[(''/r'', 5), (''/r/a'', 7)]" "''/r/b''" "[''/r/c'']"]
  have h0: "roots_answer posix tree_unreadable []" "roots_answer posix tree_unlistable []"
    by (simp_all add: roots_answer_def)
  note t2 = scan_mtimes_absorbs_os_errors [OF h0(1), of "''/r''" "[(''/p'', 1)]"]
  note t3 = scan_mtimes_absorbs_os_errors [OF h0(2), of "''/r''" "[(''/p'', 1)]"]
  have x: "scan_children tree_vanishing [''/r/b'', ''/r/c''] [(''/r'', 5), (''/r/a'', 7)] =
     (Some OSError, [(''/r'', 5), (''/r/a'', 7)])"
    using t1 v by blast
  have y: "scan_root posix tree_unreadable ''/r'' [(''/p'', 1)] = Inr [(''/p'', 1)]"
    using t2 u by blast
  have z: "scan_root posix tree_unlistable ''/r'' [(''/p'', 1)] = Inr [(''/p'', 1), (''/r'', 5)]"
    using t3 l c by simp
  show ?thesis using h s v x u y l z by blast
qed

text \<open>
  As the claim is written, a root whose enumeration fails contributes no entries, and
  the computation never raises. The root \<^verbatim>\<open>/r\<close> that cannot be listed contributes its own
  entry; and where \<^verbatim>\<open>is_dir\<close> of the root \<^verbatim>\<open>/q\<close> raises, on line 60 outside the \<^verbatim>\<open>try\<close>,
  the computation ends with that \<^verbatim>\<open>OSError\<close>.
\<close>

theorem unlistable_root_keeps_entry_counterexample:
  "is_dir tree_unlistable ''/r'' \<and> iterdir tree_unlistable ''/r'' = Inl OSError \<and>
   scan_mtimes posix tree_unlistable [''/r'', ''/q''] = Inr [(''/r'', 5)] \<and>
   Path_is_dir tree_unsearchable ''/q'' = Inl OSError \<and>
   scan_mtimes posix tree_unsearchable [''/r'', ''/q''] = Inl OSError"
  by (simp add: collector_defs posix_def tree0_def tree_unlistable_def tree_unsearchable_def)

text \<open>
  Claim C10. For every filesystem state, the fingerprint over a root list with
  duplicates equals, as Python compares dictionaries, the one over the list without
  them, and more generally the one over any list with the same roots in any order;
  where \<^verbatim>\<open>is_dir\<close> of a root raises, both computations end with that \<^verbatim>\<open>OSError\<close>. A
  fingerprint equals a stored one exactly when both have the same keys and the same
  value at each key, whatever the order of the entries.
\<close>

theorem fingerprint_duplicates_and_order:
  "(if roots_answer env fs roots
    then \<exists>m m'. scan_mtimes env fs roots = Inr m \<and> scan_mtimes env fs (remdups roots) = Inr m' \<and>
                dict_eq m (mtimes_json m')
    else scan_mtimes env fs roots = Inl OSError \<and>
         scan_mtimes env fs (remdups roots) = Inl OSError) \<and>
   (set roots' = set roots \<longrightarrow>
      (if roots_answer env fs roots
       then \<exists>m m'. scan_mtimes env fs roots = Inr m \<and> scan_mtimes env fs roots' = Inr m' \<and>
                   dict_eq m (mtimes_json m')
       else scan_mtimes env fs roots = Inl OSError \<and> scan_mtimes env fs roots' = Inl OSError)) \<and>
   (dict_eq a (mtimes_json b) \<longleftrightarrow>
      fst ` set a = fst ` set b \<and> (\<forall>k \<in> fst ` set a. map_of a k = map_of b k))"
proof -
  have answer: "roots_answer env fs rs = roots_answer env fs roots" if "set rs = set roots" for rs
    using that by (simp add: roots_answer_def list_all_iff)
  have same: "\<exists>m m'. scan_mtimes env fs roots = Inr m \<and> scan_mtimes env fs rs = Inr m' \<and>
      dict_eq m (mtimes_json m')" if rs: "set rs = set roots" and ans: "roots_answer env fs roots" for rs
  proof -
    obtain m where m: "scan_mtimes env fs roots = Inr m"
      "map_of m = (\<lambda>k. if k \<in> (\<Union>r \<in> set roots. set (recorded env fs r))
                        then Some (st_mtime fs k) else None)"
      using scan_mtimes_map [OF ans] by blast
    have "roots_answer env fs rs" using ans answer [OF rs] by simp
    then obtain m' where m': "scan_mtimes env fs rs = Inr m'"
      "map_of m' = (\<lambda>k. if k \<in> (\<Union>r \<in> set rs. set (recorded env fs r))
                         then Some (st_mtime fs k) else None)"
      using scan_mtimes_map by blast
    have "map_of m = map_of m'" using m(2) m'(2) rs by simp
    then show ?thesis using m(1) m'(1) by (simp add: dict_eq_mtimes_json)
  qed
  have raise: "scan_mtimes env fs roots = Inl OSError \<and> scan_mtimes env fs rs = Inl OSError"
    if rs: "set rs = set roots" and ans: "\<not> roots_answer env fs roots" for rs
    using ans answer [OF rs] by (simp add: scan_mtimes_raises)
  have eq: "dict_eq a (mtimes_json b) \<longleftrightarrow>
      fst ` set a = fst ` set b \<and> (\<forall>k \<in> fst ` set a. map_of a k = map_of b k)"
  proof -
    have "map_of a = map_of b \<longleftrightarrow>
        fst ` set a = fst ` set b \<and> (\<forall>k \<in> fst ` set a. map_of a k = map_of b k)"
    proof
      assume h: "map_of a = map_of b"
      then have "dom (map_of a) = dom (map_of b)" by simp
      then have "fst ` set a = fst ` set b" by (simp add: dom_map_of_conv_image_fst)
      then show "fst ` set a = fst ` set b \<and> (\<forall>k \<in> fst ` set a. map_of a k = map_of b k)"
        using h by simp
    next
      assume h: "fst ` set a = fst ` set b \<and> (\<forall>k \<in> fst ` set a. map_of a k = map_of b k)"
      show "map_of a = map_of b"
      proof
        fix k
        show "map_of a k = map_of b k"
        proof (cases "k \<in> fst ` set a")
          case True
          then show ?thesis using h by blast
        next
          case False
          then show ?thesis using h by (metis map_of_eq_None_iff)
        qed
      qed
    qed
    then show ?thesis by (simp add: dict_eq_mtimes_json)
  qed
  have r: "set (remdups roots) = set roots" by simp
  show ?thesis
  proof (cases "roots_answer env fs roots")
    case True
    then show ?thesis using same [OF r] same [of roots'] eq by simp
  next
    case False
    then show ?thesis using raise [OF r] raise [of roots'] eq by simp
  qed
qed

theorem fingerprint_duplicates_and_order_witness:
  "roots_answer posix tree0 [''/r'', ''/q'', ''/r''] \<and>
   scan_mtimes posix tree0 [''/r'', ''/q'', ''/r''] = Inr [(''/r'', 5), (''/r/a'', 7)] \<and>
   scan_mtimes posix tree0 (remdups [''/r'', ''/q'', ''/r'']) = Inr [(''/r'', 5), (''/r/a'', 7)] \<and>
   set [''/q'', ''/r''] = set [''/r'', ''/q'', ''/r''] \<and>
   scan_mtimes posix tree0 [''/q'', ''/r''] = Inr [(''/r'', 5), (''/r/a'', 7)] \<and>
   dict_eq [(''/r'', 5), (''/r/a'', 7)] (mtimes_json [(''/r/a'', 7), (''/r'', 5)]) \<and>
   fst ` set [(''/r'', 5 :: mtime), (''/r/a'', 7)] = fst ` set [(''/r/a'', 7 :: mtime), (''/r'', 5)] \<and>
   map_of [(''/r'', 5 :: mtime), (''/r/a'', 7)] ''/r'' = map_of [(''/r/a'', 7), (''/r'', 5)] ''/r'' \<and>
   map_of [(''/r'', 5 :: mtime), (''/r/a'', 7)] ''/r/a'' = map_of [(''/r/a'', 7), (''/r'', 5)] ''/r/a''"
proof -
  note t = fingerprint_duplicates_and_order
    [of posix tree0 "[''/r'', ''/q'', ''/r'']" "[''/q'', ''/r'']"
        "[(''/r'', 5), (''/r/a'', 7)]" "[(''/r/a'', 7), (''/r'', 5)]"]
  have h: "roots_answer posix tree0 [''/r'', ''/q'', ''/r'']"
    by (simp add: roots_answer_def tree0_def)
  have s1: "scan_mtimes posix tree0 [''/r'', ''/q'', ''/r''] = Inr [(''/r'', 5), (''/r/a'', 7)]"
    by (simp add: collector_defs posix_def tree0_def)
  have s2: "scan_mtimes posix tree0 (remdups [''/r'', ''/q'', ''/r'']) = Inr [(''/r'', 5), (''/r/a'', 7)]"
    by (simp add: collector_defs posix_def tree0_def)
  have s3: "scan_mtimes posix tree0 [''/q'', ''/r''] = Inr [(''/r'', 5), (''/r/a'', 7)]"
    by (simp add: collector_defs posix_def tree0_def)
  have k: "fst ` set [(''/r'', 5 :: mtime), (''/r/a'', 7)] = fst ` set [(''/r/a'', 7 :: mtime), (''/r'', 5)] \<and>
   (\<forall>k \<in> fst ` set [(''/r'', 5 :: mtime), (''/r/a'', 7)].
       map_of [(''/r'', 5 :: mtime), (''/r/a'', 7)] k = map_of [(''/r/a'', 7), (''/r'', 5)] k)"
    by auto
  have st: "set [''/q'', ''/r''] = set [''/r'', ''/q'', ''/r'']" by auto
  have "dict_eq [(''/r'', 5), (''/r/a'', 7)] (mtimes_json [(''/r/a'', 7), (''/r'', 5)])"
    using t k by blast
  moreover have
    "map_of [(''/r'', 5 :: mtime), (''/r/a'', 7)] ''/r'' = map_of [(''/r/a'', 7), (''/r'', 5)] ''/r'' \<and>
     map_of [(''/r'', 5 :: mtime), (''/r/a'', 7)] ''/r/a'' = map_of [(''/r/a'', 7), (''/r'', 5)] ''/r/a''"
    by simp
  ultimately show ?thesis using h s1 s2 s3 k st by blast
qed

subsection \<open>Regeneration and the staleness check\<close>

lemma regenerate_Inr:
  assumes "regenerate env io roots_str s = (Inr p, s')"
  shows "\<exists>m. scan_mtimes env (tree_at_fingerprint io (tree s)) (split_roots env roots_str) = Inr m \<and>
     \<not> mkdir_raises io \<and> bundles_write io = Written \<and> meta_write io = Written \<and>
     p = LOCAL_BUNDLES_PATH env \<and>
     s' = s\<lparr>scans := Suc (scans s),
            tree := meta_tree io (tree_at_fingerprint io (tree s)),
            bundles_file := Some (Doc (bundles_json (map root (discover_bundles_auto env)))),
            meta_file := Some (Doc (meta_json roots_str m))\<rparr>"
  using assms
  by (auto simp: regenerate_def tree_at_fingerprint_def Let_def
      split: if_splits write_text.splits sum.splits)

lemma regenerate_written:
  assumes "\<not> mkdir_raises io" "bundles_write io = Written" "meta_write io = Written"
    "scan_mtimes env (tree_at_fingerprint io (tree s)) (split_roots env roots_str) = Inr m"
  shows "regenerate env io roots_str s =
     (Inr (LOCAL_BUNDLES_PATH env),
      s\<lparr>scans := Suc (scans s),
        tree := meta_tree io (tree_at_fingerprint io (tree s)),
        bundles_file := Some (Doc (bundles_json (map root (discover_bundles_auto env)))),
        meta_file := Some (Doc (meta_json roots_str m))\<rparr>)"
  using assms by (simp add: regenerate_def tree_at_fingerprint_def Let_def)

lemma regenerate_scans: "scans (snd (regenerate env io roots_str s)) = Suc (scans s)"
  by (simp add: regenerate_def Let_def split: write_text.splits sum.splits)

lemma regenerate_error:
  "fst (regenerate env io roots_str s) = Inr (LOCAL_BUNDLES_PATH env) \<or>
   fst (regenerate env io roots_str s) = Inl OSError"
  by (auto simp: regenerate_def Let_def split: write_text.splits sum.splits
      dest: scan_mtimes_error)

lemma regenerate_write_failure:
  assumes "mkdir_raises io \<or> bundles_write io \<noteq> Written \<or> meta_write io \<noteq> Written"
  shows "fst (regenerate env io roots_str s) = Inl OSError"
  using assms
  by (auto simp: regenerate_def Let_def split: write_text.splits sum.splits
      dest: scan_mtimes_error)

lemma is_stale_after_regenerate:
  assumes "scan_mtimes env t (split_roots env roots_str) = Inr m"
  shows "is_stale env (s\<lparr>scans := n, tree := t, bundles_file := Some b,
            meta_file := Some (Doc (meta_json roots_str m))\<rparr>) roots_str = Inr False"
  using assms by (simp add: is_stale_def meta_json_def dict_eq_refl)

lemma write_local_bundles_force:
  "write_local_bundles env io True s = regenerate env io (roots_str_of env) s"
  by (simp add: write_local_bundles_def)

lemma write_local_bundles_stale:
  "is_stale env s (roots_str_of env) = Inr True \<Longrightarrow>
     write_local_bundles env io False s = regenerate env io (roots_str_of env) s"
  by (simp add: write_local_bundles_def Let_def)

lemma write_local_bundles_fresh:
  "is_stale env s (roots_str_of env) = Inr False \<Longrightarrow>
     write_local_bundles env io False s = (Inr (LOCAL_BUNDLES_PATH env), s)"
  by (simp add: write_local_bundles_def Let_def)

lemma write_local_bundles_raise:
  "is_stale env s (roots_str_of env) = Inl e \<Longrightarrow>
     write_local_bundles env io False s = (Inl e, s)"
  by (simp add: write_local_bundles_def Let_def)

lemma write_failure_propagates:
  assumes "force \<or> is_stale env s (roots_str_of env) = Inr True"
    and "mkdir_raises io \<or> bundles_write io \<noteq> Written \<or> meta_write io \<noteq> Written"
  shows "fst (write_local_bundles env io force s) = Inl OSError"
  using assms regenerate_write_failure [OF assms(2)]
  by (cases force) (auto simp: write_local_bundles_force write_local_bundles_stale)

lemma write_local_bundles_regenerates:
  assumes "force \<or> is_stale env s (roots_str_of env) = Inr True"
    and "\<not> mkdir_raises io" "bundles_write io = Written" "meta_write io = Written"
    and "scan_mtimes env (tree_at_fingerprint io (tree s)) (split_roots env (roots_str_of env)) =
           Inr m"
  shows "write_local_bundles env io force s =
     (Inr (LOCAL_BUNDLES_PATH env),
      s\<lparr>scans := Suc (scans s),
        tree := meta_tree io (tree_at_fingerprint io (tree s)),
        bundles_file := Some (Doc (bundles_json (map root (discover_bundles_auto env)))),
        meta_file := Some (Doc (meta_json (roots_str_of env) m))\<rparr>)"
  using assms(1) regenerate_written [OF assms(2-5)]
  by (cases force) (auto simp: write_local_bundles_force write_local_bundles_stale)

lemma all_written_simps:
  "\<not> mkdir_raises all_written" "bundles_write all_written = Written"
  "meta_write all_written = Written" "tree_at_fingerprint all_written t = t"
  "meta_tree all_written t = t"
  by (simp_all add: all_written_def tree_at_fingerprint_def)

lemma roots_str_of_posix: "roots_str_of posix = ''/r: /q :''"
  by (simp add: roots_str_of_def posix_def)

lemma LOCAL_BUNDLES_PATH_posix: "LOCAL_BUNDLES_PATH posix = ''local_bundles.json''"
  by (simp add: posix_def)

lemma is_stale_warm: "is_stale posix warm (roots_str_of posix) = Inr False"
  by (simp add: roots_str_of_posix is_stale_def warm_def split_roots_posix scan_tree0)

lemma is_stale_cold: "is_stale env cold roots_str = Inr True"
  by (simp add: is_stale_def cold_def)

lemma cold_call: "write_local_bundles posix all_written False cold = (Inr ''local_bundles.json'', warm)"
proof -
  have stale: "False \<or> is_stale posix cold (roots_str_of posix) = Inr True"
    by (simp add: is_stale_cold)
  have tc: "tree cold = tree0"
    by (simp add: cold_def)
  have sc: "scan_mtimes posix (tree_at_fingerprint all_written (tree cold))
      (split_roots posix (roots_str_of posix)) = Inr [(''/r'', 5), (''/r/a'', 7)]"
    by (simp only: all_written_simps tc roots_str_of_posix split_roots_posix scan_tree0)
  have st: "cold\<lparr>scans := Suc (scans cold),
        tree := meta_tree all_written (tree_at_fingerprint all_written (tree cold)),
        bundles_file := Some (Doc (bundles_json (map root (discover_bundles_auto posix)))),
        meta_file := Some (Doc (meta_json (roots_str_of posix) [(''/r'', 5), (''/r/a'', 7)]))\<rparr>
      = warm"
    by (simp add: all_written_simps roots_str_of_posix cold_def warm_def bundles_json_def
        meta_json_def mtimes_json_def, simp add: posix_def)
  show ?thesis
    by (simp only: write_local_bundles_regenerates [OF stale all_written_simps(1-3) sc] st
        LOCAL_BUNDLES_PATH_posix)
qed

lemma is_stale_decision:
  assumes "\<And>v. meta_file s = Some (Doc v) \<Longrightarrow> \<exists>meta. v = JObj meta"
    and "scan_mtimes env (tree s) (split_roots env roots_str) = Inr m"
  shows "is_stale env s roots_str =
     Inr (bundles_file s = None \<or> meta_file s = None \<or> meta_file s = Some Garbage \<or>
          (\<exists>meta. meta_file s = Some (Doc (JObj meta)) \<and>
             (map_of meta ''bndl_roots'' \<noteq> Some (JStr roots_str) \<or>
              \<not> dict_eq m (case map_of meta ''depth2_mtimes'' of
                               None \<Rightarrow> JObj [] | Some v \<Rightarrow> v))))"
proof (cases "meta_file s")
  case None
  then show ?thesis by (simp add: is_stale_def)
next
  case (Some c)
  show ?thesis
  proof (cases c)
    case Garbage
    then show ?thesis using Some by (simp add: is_stale_def)
  next
    case (Doc v)
    then obtain meta where "v = JObj meta" using assms(1) Some by blast
    then show ?thesis using Some Doc assms(2) by (simp add: is_stale_def)
  qed
qed

subsection \<open>The cache manager\<close>

text \<open>
  Claim C1. The claim gives the staleness decision for every state of the cache files.
  \<^verbatim>\<open>_is_stale\<close> makes no decision when the Metadata File holds JSON that is not an
  object: with the array \<^verbatim>\<open>[]\<close> in it, \<^verbatim>\<open>meta.get\<close> raises \<^verbatim>\<open>AttributeError\<close>, and the
  exception leaves \<^verbatim>\<open>write_local_bundles\<close> too. For every other state in which the
  collector returns, the decision is the disjunction of the claim, in its order (lemma
  \<open>is_stale_decision\<close>).
\<close>

theorem is_stale_raises_on_non_object_metadata:
  "is_stale posix list_meta (roots_str_of posix) = Inl AttributeError \<and>
   fst (write_local_bundles posix all_written False list_meta) = Inl AttributeError"
  by (simp add: write_local_bundles_def is_stale_def list_meta_def warm_def)

text \<open>
  Claim C2, as amended. When a call of \<^verbatim>\<open>write_local_bundles\<close> without \<^verbatim>\<open>force\<close> has
  returned a path and, if it regenerated, the write of the Metadata File has left the
  fingerprint as line 135 took it (the cache directory is not one of the fingerprinted
  directories), a second call with the same roots string and the tree as the first call
  left it returns the same path and leaves the state as it is: it writes nothing and
  does not call the scan, so that both calls together call the scan at most once.
\<close>

theorem freshness_idempotence:
  assumes "write_local_bundles env io False s = (Inr p, s')"
    and "is_stale env s (roots_str_of env) = Inr True \<Longrightarrow> fingerprint_kept env io s"
  shows "write_local_bundles env io' False s' = (Inr p, s') \<and> scans s' \<le> Suc (scans s)"
proof (cases "is_stale env s (roots_str_of env)")
  case (Inl e)
  then show ?thesis using assms(1) by (simp add: write_local_bundles_raise)
next
  case (Inr stale)
  show ?thesis
  proof (cases stale)
    case False
    then have "p = LOCAL_BUNDLES_PATH env" "s' = s"
      using assms(1) Inr by (simp_all add: write_local_bundles_fresh)
    then show ?thesis using Inr False by (simp add: write_local_bundles_fresh)
  next
    case True
    let ?rs = "roots_str_of env"
    let ?t = "tree_at_fingerprint io (tree s)"
    have "regenerate env io ?rs s = (Inr p, s')"
      using assms(1) Inr True by (simp add: write_local_bundles_stale)
    then obtain m where m: "scan_mtimes env ?t (split_roots env ?rs) = Inr m"
      and p: "p = LOCAL_BUNDLES_PATH env"
      and s': "s' = s\<lparr>scans := Suc (scans s), tree := meta_tree io ?t,
            bundles_file := Some (Doc (bundles_json (map root (discover_bundles_auto env)))),
            meta_file := Some (Doc (meta_json ?rs m))\<rparr>"
      using regenerate_Inr by blast
    have "fingerprint_kept env io s"
      using assms(2) Inr True by simp
    then have "scan_mtimes env (meta_tree io ?t) (split_roots env ?rs) = Inr m"
      using m by (simp add: fingerprint_kept_def)
    then have "is_stale env s' ?rs = Inr False"
      unfolding s' by (rule is_stale_after_regenerate)
    then show ?thesis using p s' by (simp add: write_local_bundles_fresh)
  qed
qed

text \<open>
  A first run that creates its two files in \<^verbatim>\<open>/cache\<close>, outside the roots, and the
  second run after it.
\<close>

theorem freshness_idempotence_witness:
  "write_local_bundles posix creating_elsewhere False cold =
     (Inr ''local_bundles.json'', warm_elsewhere) \<and>
   is_stale posix cold (roots_str_of posix) = Inr True \<and>
   fingerprint_kept posix creating_elsewhere cold \<and>
   write_local_bundles posix all_written False warm_elsewhere =
     (Inr ''local_bundles.json'', warm_elsewhere) \<and>
   scans warm_elsewhere \<le> Suc (scans cold)"
proof -
  have stale: "is_stale posix cold (roots_str_of posix) = Inr True"
    by (rule is_stale_cold)
  then have stale': "False \<or> is_stale posix cold (roots_str_of posix) = Inr True"
    by simp
  have tc: "tree cold = tree0"
    by (simp add: cold_def)
  have t: "tree_at_fingerprint creating_elsewhere tree0 = touch ''/cache'' 8 tree0"
    by (simp add: tree_at_fingerprint_def creating_elsewhere_def all_written_def)
  have m: "meta_tree creating_elsewhere = touch ''/cache'' 9"
    by (simp add: creating_elsewhere_def)
  have s8: "scan_mtimes posix (touch ''/cache'' 8 tree0) [''/r'', ''/q''] =
      Inr [(''/r'', 5), (''/r/a'', 7)]"
    by (simp add: collector_defs touch_def posix_def tree0_def)
  have s9: "scan_mtimes posix (touch ''/cache'' 9 (touch ''/cache'' 8 tree0)) [''/r'', ''/q''] =
      Inr [(''/r'', 5), (''/r/a'', 7)]"
    by (simp add: collector_defs touch_def posix_def tree0_def)
  have sc: "scan_mtimes posix (tree_at_fingerprint creating_elsewhere (tree cold))
      (split_roots posix (roots_str_of posix)) = Inr [(''/r'', 5), (''/r/a'', 7)]"
    by (simp only: tc t roots_str_of_posix split_roots_posix s8)
  have sc': "scan_mtimes posix
      (meta_tree creating_elsewhere (tree_at_fingerprint creating_elsewhere (tree cold)))
      (split_roots posix (roots_str_of posix)) = Inr [(''/r'', 5), (''/r/a'', 7)]"
    by (simp only: tc t m roots_str_of_posix split_roots_posix s9)
  have kept: "fingerprint_kept posix creating_elsewhere cold"
    unfolding fingerprint_kept_def by (simp only: sc sc')
  have w: "\<not> mkdir_raises creating_elsewhere" "bundles_write creating_elsewhere = Written"
    "meta_write creating_elsewhere = Written"
    by (simp_all add: creating_elsewhere_def all_written_def)
  have st: "cold\<lparr>scans := Suc (scans cold),
        tree := meta_tree creating_elsewhere (tree_at_fingerprint creating_elsewhere (tree cold)),
        bundles_file := Some (Doc (bundles_json (map root (discover_bundles_auto posix)))),
        meta_file := Some (Doc (meta_json (roots_str_of posix) [(''/r'', 5), (''/r/a'', 7)]))\<rparr>
      = warm_elsewhere"
    by (simp add: tc t m roots_str_of_posix cold_def warm_elsewhere_def warm_def bundles_json_def
        meta_json_def mtimes_json_def, simp add: posix_def)
  have first: "write_local_bundles posix creating_elsewhere False cold =
      (Inr ''local_bundles.json'', warm_elsewhere)"
    by (simp only: write_local_bundles_regenerates [OF stale' w sc] st LOCAL_BUNDLES_PATH_posix)
  from freshness_idempotence [OF first, of all_written] kept
  have "write_local_bundles posix all_written False warm_elsewhere =
      (Inr ''local_bundles.json'', warm_elsewhere) \<and> scans warm_elsewhere \<le> Suc (scans cold)"
    by simp
  then show ?thesis using first stale kept by simp
qed

text \<open>
  As the claim is written, for every roots string and filesystem state, it fails where
  the cache directory \<^verbatim>\<open>/r/a\<close> is a child of the root \<^verbatim>\<open>/r\<close>: the first run stores the time
  8 that \<^verbatim>\<open>/r/a\<close> had when the fingerprint was taken, the creation of the Metadata File
  sets it to 9, and the second run finds the cache stale and calls the scan again.
\<close>

theorem cache_directory_under_root_counterexample:
  "write_local_bundles nested creating False cold =
     (Inr ''/r/a/local_bundles.json'', nested_warm) \<and>
   scans nested_warm = 1 \<and>
   is_stale nested nested_warm (roots_str_of nested) = Inr True \<and>
   fst (write_local_bundles nested all_written False nested_warm) =
     Inr ''/r/a/local_bundles.json'' \<and>
   scans (snd (write_local_bundles nested all_written False nested_warm)) = 2"
proof -
  have r: "roots_str_of nested = ''/r''"
    by (simp add: roots_str_of_def nested_def)
  have sp: "split_roots nested ''/r'' = [''/r'']"
    by (simp add: split_roots_def nested_def posix_def sep_def strip_def isspace_def)
  have p: "LOCAL_BUNDLES_PATH nested = ''/r/a/local_bundles.json''"
    by (simp add: nested_def)
  have tc: "tree cold = tree0"
    by (simp add: cold_def)
  have tn: "tree nested_warm = touch ''/r/a'' 9 (touch ''/r/a'' 8 tree0)"
    by (simp add: nested_warm_def)
  have t: "tree_at_fingerprint creating tree0 = touch ''/r/a'' 8 tree0"
    by (simp add: tree_at_fingerprint_def creating_def all_written_def)
  have m: "meta_tree creating = touch ''/r/a'' 9"
    by (simp add: creating_def)
  have s8: "scan_mtimes nested (touch ''/r/a'' 8 tree0) [''/r''] = Inr [(''/r'', 5), (''/r/a'', 8)]"
    by (simp add: collector_defs touch_def nested_def posix_def tree0_def)
  have s9: "scan_mtimes nested (touch ''/r/a'' 9 (touch ''/r/a'' 8 tree0)) [''/r''] =
      Inr [(''/r'', 5), (''/r/a'', 9)]"
    by (simp add: collector_defs touch_def nested_def posix_def tree0_def)
  have w: "\<not> mkdir_raises creating" "bundles_write creating = Written"
    "meta_write creating = Written"
    by (simp_all add: creating_def all_written_def)
  have stale0: "False \<or> is_stale nested cold (roots_str_of nested) = Inr True"
    by (simp add: is_stale_cold)
  have sc: "scan_mtimes nested (tree_at_fingerprint creating (tree cold))
      (split_roots nested (roots_str_of nested)) = Inr [(''/r'', 5), (''/r/a'', 8)]"
    by (simp only: tc t r sp s8)
  have st: "cold\<lparr>scans := Suc (scans cold),
        tree := meta_tree creating (tree_at_fingerprint creating (tree cold)),
        bundles_file := Some (Doc (bundles_json (map root (discover_bundles_auto nested)))),
        meta_file := Some (Doc (meta_json (roots_str_of nested) [(''/r'', 5), (''/r/a'', 8)]))\<rparr>
      = nested_warm"
    by (simp add: tc t m r cold_def nested_warm_def bundles_json_def meta_json_def
        mtimes_json_def, simp add: nested_def posix_def)
  have first: "write_local_bundles nested creating False cold =
      (Inr ''/r/a/local_bundles.json'', nested_warm)"
    by (simp only: write_local_bundles_regenerates [OF stale0 w sc] st p)
  have stale: "is_stale nested nested_warm (roots_str_of nested) = Inr True"
    by (simp add: r is_stale_def nested_warm_def sp s9)
  then have stale': "False \<or> is_stale nested nested_warm (roots_str_of nested) = Inr True"
    by simp
  have sc2: "scan_mtimes nested (tree_at_fingerprint all_written (tree nested_warm))
      (split_roots nested (roots_str_of nested)) = Inr [(''/r'', 5), (''/r/a'', 9)]"
    by (simp only: all_written_simps tn r sp s9)
  note second = write_local_bundles_regenerates [OF stale' all_written_simps(1-3) sc2]
  have f: "fst (write_local_bundles nested all_written False nested_warm) =
      Inr ''/r/a/local_bundles.json''"
    by (simp add: second p)
  have n: "scans (snd (write_local_bundles nested all_written False nested_warm)) = 2"
    by (simp add: second, simp add: nested_warm_def)
  have "scans nested_warm = 1"
    by (simp add: nested_warm_def)
  then show ?thesis using first stale f n by simp
qed

text \<open>
  Claim C5. With \<^verbatim>\<open>force\<close>, \<^verbatim>\<open>write_local_bundles\<close> calls the scan exactly once whatever
  the cache holds and whatever the later calls do, and does not run the staleness check
  (so its \<^verbatim>\<open>AttributeError\<close> cannot occur). Whenever the call returns, it has overwritten
  both the Result File, with the scan's bundles, and the Metadata File, with the roots
  string and the fingerprint that line 135 took; this is so also when the pair was
  fresh. The call returns when no write raises and the collector on line 135 returns.
\<close>

theorem force_regenerates:
  "scans (snd (write_local_bundles env io True s)) = Suc (scans s) \<and>
   fst (write_local_bundles env io True s) \<noteq> Inl AttributeError \<and>
   (\<forall>p s'. write_local_bundles env io True s = (Inr p, s') \<longrightarrow>
      p = LOCAL_BUNDLES_PATH env \<and>
      bundles_file s' = Some (Doc (bundles_json (map root (discover_bundles_auto env)))) \<and>
      (\<exists>m. scan_mtimes env (tree_at_fingerprint io (tree s))
               (split_roots env (roots_str_of env)) = Inr m \<and>
           meta_file s' = Some (Doc (meta_json (roots_str_of env) m)))) \<and>
   (\<not> mkdir_raises io \<and> bundles_write io = Written \<and> meta_write io = Written \<and>
    scan_mtimes env (tree_at_fingerprint io (tree s)) (split_roots env (roots_str_of env)) = Inr m
    \<longrightarrow> write_local_bundles env io True s =
          (Inr (LOCAL_BUNDLES_PATH env),
           s\<lparr>scans := Suc (scans s),
             tree := meta_tree io (tree_at_fingerprint io (tree s)),
             bundles_file := Some (Doc (bundles_json (map root (discover_bundles_auto env)))),
             meta_file := Some (Doc (meta_json (roots_str_of env) m))\<rparr>))"
proof -
  have a: "scans (snd (write_local_bundles env io True s)) = Suc (scans s)"
    by (simp add: write_local_bundles_force regenerate_scans)
  have b: "fst (write_local_bundles env io True s) \<noteq> Inl AttributeError"
    using regenerate_error [of env io "roots_str_of env" s]
    by (auto simp: write_local_bundles_force)
  have c: "\<forall>p s'. write_local_bundles env io True s = (Inr p, s') \<longrightarrow>
      p = LOCAL_BUNDLES_PATH env \<and>
      bundles_file s' = Some (Doc (bundles_json (map root (discover_bundles_auto env)))) \<and>
      (\<exists>m. scan_mtimes env (tree_at_fingerprint io (tree s))
               (split_roots env (roots_str_of env)) = Inr m \<and>
           meta_file s' = Some (Doc (meta_json (roots_str_of env) m)))"
  proof (intro allI impI)
    fix p s'
    assume "write_local_bundles env io True s = (Inr p, s')"
    then have "regenerate env io (roots_str_of env) s = (Inr p, s')"
      by (simp add: write_local_bundles_force)
    from regenerate_Inr [OF this]
    show "p = LOCAL_BUNDLES_PATH env \<and>
      bundles_file s' = Some (Doc (bundles_json (map root (discover_bundles_auto env)))) \<and>
      (\<exists>m. scan_mtimes env (tree_at_fingerprint io (tree s))
               (split_roots env (roots_str_of env)) = Inr m \<and>
           meta_file s' = Some (Doc (meta_json (roots_str_of env) m)))"
      by auto
  qed
  have d: "\<not> mkdir_raises io \<and> bundles_write io = Written \<and> meta_write io = Written \<and>
    scan_mtimes env (tree_at_fingerprint io (tree s)) (split_roots env (roots_str_of env)) = Inr m
    \<longrightarrow> write_local_bundles env io True s =
          (Inr (LOCAL_BUNDLES_PATH env),
           s\<lparr>scans := Suc (scans s),
             tree := meta_tree io (tree_at_fingerprint io (tree s)),
             bundles_file := Some (Doc (bundles_json (map root (discover_bundles_auto env)))),
             meta_file := Some (Doc (meta_json (roots_str_of env) m))\<rparr>)"
    using regenerate_written [of io env s "roots_str_of env" m]
    by (auto simp: write_local_bundles_force)
  show ?thesis using a b c d by blast
qed

theorem force_regenerates_witness:
  "is_stale posix warm_old (roots_str_of posix) = Inr False \<and>
   \<not> mkdir_raises all_written \<and> bundles_write all_written = Written \<and>
   meta_write all_written = Written \<and>
   scan_mtimes posix (tree_at_fingerprint all_written (tree warm_old))
     (split_roots posix (roots_str_of posix)) = Inr [(''/r'', 5), (''/r/a'', 7)] \<and>
   scans (snd (write_local_bundles posix all_written True warm_old)) = Suc (scans warm_old) \<and>
   write_local_bundles posix all_written True warm_old =
     (Inr ''local_bundles.json'', warm\<lparr>scans := 2\<rparr>) \<and>
   bundles_file (warm\<lparr>scans := 2\<rparr>) =
     Some (Doc (bundles_json (map root (discover_bundles_auto posix))))"
proof -
  have fresh: "is_stale posix warm_old (roots_str_of posix) = Inr False"
    by (simp add: roots_str_of_posix is_stale_def warm_old_def warm_def split_roots_posix
        scan_tree0)
  have ok: "\<not> mkdir_raises all_written \<and> bundles_write all_written = Written \<and>
      meta_write all_written = Written"
    by (simp add: all_written_simps)
  have tw: "tree warm_old = tree0"
    by (simp add: warm_old_def warm_def)
  have sc: "scan_mtimes posix (tree_at_fingerprint all_written (tree warm_old))
      (split_roots posix (roots_str_of posix)) = Inr [(''/r'', 5), (''/r/a'', 7)]"
    by (simp only: all_written_simps tw roots_str_of_posix split_roots_posix scan_tree0)
  have st: "warm_old\<lparr>scans := Suc (scans warm_old),
        tree := meta_tree all_written (tree_at_fingerprint all_written (tree warm_old)),
        bundles_file := Some (Doc (bundles_json (map root (discover_bundles_auto posix)))),
        meta_file := Some (Doc (meta_json (roots_str_of posix) [(''/r'', 5), (''/r/a'', 7)]))\<rparr>
      = warm\<lparr>scans := 2\<rparr>"
    by (simp add: all_written_simps roots_str_of_posix warm_old_def warm_def bundles_json_def
        meta_json_def mtimes_json_def, simp add: posix_def)
  note t1 = force_regenerates [of posix all_written warm_old "[(''/r'', 5), (''/r/a'', 7)]"]
  have "write_local_bundles posix all_written True warm_old =
      (Inr (LOCAL_BUNDLES_PATH posix),
       warm_old\<lparr>scans := Suc (scans warm_old),
        tree := meta_tree all_written (tree_at_fingerprint all_written (tree warm_old)),
        bundles_file := Some (Doc (bundles_json (map root (discover_bundles_auto posix)))),
        meta_file := Some (Doc (meta_json (roots_str_of posix) [(''/r'', 5), (''/r/a'', 7)]))\<rparr>)"
    using t1 ok sc by blast
  then have call: "write_local_bundles posix all_written True warm_old =
      (Inr ''local_bundles.json'', warm\<lparr>scans := 2\<rparr>)"
    by (simp only: st LOCAL_BUNDLES_PATH_posix)
  have n: "scans (snd (write_local_bundles posix all_written True warm_old)) =
      Suc (scans warm_old)"
    using t1 by blast
  have "bundles_file (warm\<lparr>scans := 2\<rparr>) =
      Some (Doc (bundles_json (map root (discover_bundles_auto posix))))"
    using t1 call by blast
  then show ?thesis using fresh ok sc n call by blast
qed

text \<open>
  Claim C6. Without \<^verbatim>\<open>force\<close>, when the staleness check answers that the cache is
  fresh, \<^verbatim>\<open>write_local_bundles\<close> returns the path of the Result File and leaves the state
  as it is: both files keep their content and the scan is not called.
\<close>

theorem fresh_cache_is_left_alone:
  assumes "is_stale env s (roots_str_of env) = Inr False"
  shows "write_local_bundles env io False s = (Inr (LOCAL_BUNDLES_PATH env), s)"
  using assms by (rule write_local_bundles_fresh)

theorem fresh_cache_is_left_alone_witness:
  "is_stale posix warm (roots_str_of posix) = Inr False \<and>
   write_local_bundles posix meta_write_fails False warm = (Inr ''local_bundles.json'', warm)"
  using is_stale_warm fresh_cache_is_left_alone [OF is_stale_warm, of meta_write_fails]
  by (simp add: posix_def)

text \<open>
  Claim C7. After a regeneration that returns, the Result File holds a JSON object whose
  member \<^verbatim>\<open>bundles\<close> is the list of the strings \<^verbatim>\<open>str(b.root)\<close> of the scan's bundles, in
  the scan's order, with nothing added, dropped or merged.
\<close>

theorem result_file_round_trip:
  assumes "force \<or> is_stale env s (roots_str_of env) = Inr True"
    and "write_local_bundles env io force s = (Inr p, s')"
  shows "\<exists>d. bundles_file s' = Some (Doc (JObj d)) \<and>
     map_of d ''bundles'' = Some (JArr (map JStr (map root (discover_bundles_auto env))))"
proof -
  have "regenerate env io (roots_str_of env) s = (Inr p, s')"
    using assms by (cases force) (auto simp: write_local_bundles_force write_local_bundles_stale)
  then have "bundles_file s' = Some (Doc (bundles_json (map root (discover_bundles_auto env))))"
    using regenerate_Inr by fastforce
  then show ?thesis by (simp add: bundles_json_def)
qed

theorem result_file_round_trip_witness:
  "is_stale posix cold (roots_str_of posix) = Inr True \<and>
   write_local_bundles posix all_written False cold = (Inr ''local_bundles.json'', warm) \<and>
   bundles_file warm = Some (Doc (JObj [(''bundles'', JArr [JStr ''x'', JStr ''y''])])) \<and>
   map_of [(''bundles'', JArr [JStr ''x'', JStr ''y''])] ''bundles'' =
     Some (JArr (map JStr (map root (discover_bundles_auto posix))))"
proof -
  have a: "is_stale posix cold (roots_str_of posix) = Inr True"
    by (simp add: is_stale_def cold_def)
  then have b: "False \<or> is_stale posix cold (roots_str_of posix) = Inr True" by simp
  have c: "bundles_file warm = Some (Doc (JObj [(''bundles'', JArr [JStr ''x'', JStr ''y''])]))"
    by (simp add: warm_def)
  from result_file_round_trip [OF b cold_call] c
  have "map_of [(''bundles'', JArr [JStr ''x'', JStr ''y''])] ''bundles'' =
     Some (JArr (map JStr (map root (discover_bundles_auto posix))))"
    by auto
  then show ?thesis using a cold_call c by simp
qed

text \<open>
  Claim C8. The claim says that a missing or corrupt cache pair never surfaces as an
  error. A Metadata File that holds JSON which is not an object does: with \<^verbatim>\<open>null\<close> in
  it, \<^verbatim>\<open>meta.get\<close> on line 82 raises \<^verbatim>\<open>AttributeError\<close>, which leaves
  \<^verbatim>\<open>write_local_bundles\<close> whatever the writes would do, with no file written and no scan.
  This is the defect of claim C1. The other half of the claim holds: when a regeneration
  runs and \<^verbatim>\<open>mkdir\<close> or a \<^verbatim>\<open>write_text\<close> raises, the call ends with \<^verbatim>\<open>OSError\<close> (lemma
  \<open>write_failure_propagates\<close>).
\<close>

theorem metadata_read_failure_surfaces:
  "write_local_bundles posix all_written False null_meta = (Inl AttributeError, null_meta) \<and>
   write_local_bundles posix meta_write_fails False null_meta = (Inl AttributeError, null_meta)"
  by (simp add: write_local_bundles_def is_stale_def null_meta_def warm_def)

text \<open>
  Claim C9. When the Metadata File is a JSON object without the key \<^verbatim>\<open>depth2_mtimes\<close> and
  its \<^verbatim>\<open>bndl_roots\<close> is the roots string, the staleness check compares the current
  fingerprint with the empty dict: the cache is stale exactly when the fingerprint is not
  empty. With an empty fingerprint, as when no root is a directory, the cache is fresh
  and \<^verbatim>\<open>write_local_bundles\<close> regenerates nothing.
\<close>

theorem missing_depth2_mtimes_is_empty:
  assumes "bundles_file s \<noteq> None"
    and "meta_file s = Some (Doc (JObj meta))"
    and "map_of meta ''depth2_mtimes'' = None"
    and "map_of meta ''bndl_roots'' = Some (JStr (roots_str_of env))"
    and "scan_mtimes env (tree s) (split_roots env (roots_str_of env)) = Inr m"
  shows "is_stale env s (roots_str_of env) = Inr (\<not> dict_eq m (JObj [])) \<and>
     dict_eq m (JObj []) = (m = []) \<and>
     (m = [] \<longrightarrow> write_local_bundles env io False s = (Inr (LOCAL_BUNDLES_PATH env), s)) \<and>
     (list_all (\<lambda>r. \<not> is_dir (tree s) (Path_str env r)) (split_roots env (roots_str_of env))
        \<longrightarrow> m = [])"
proof -
  have st: "is_stale env s (roots_str_of env) = Inr (\<not> dict_eq m (JObj []))"
    using assms by (auto simp: is_stale_def)
  have em: "dict_eq m (JObj []) = (m = [])"
    by (rule dict_eq_empty)
  have hit: "m = [] \<longrightarrow> write_local_bundles env io False s = (Inr (LOCAL_BUNDLES_PATH env), s)"
    using st em by (simp add: write_local_bundles_fresh)
  have none: "list_all (\<lambda>r. \<not> is_dir (tree s) (Path_str env r)) (split_roots env (roots_str_of env))
        \<longrightarrow> m = []"
    using assms(5) scan_roots_no_dirs [of "tree s" env "split_roots env (roots_str_of env)" "[]" m]
    by (auto simp: scan_mtimes_def)
  show ?thesis using st em hit none by blast
qed

theorem missing_depth2_mtimes_is_empty_witness:
  "bundles_file bare_meta \<noteq> None \<and>
   meta_file bare_meta = Some (Doc (JObj [(''bndl_roots'', JStr ''/q'')])) \<and>
   map_of [(''bndl_roots'', JStr ''/q'')] ''depth2_mtimes'' = None \<and>
   map_of [(''bndl_roots'', JStr ''/q'')] ''bndl_roots'' = Some (JStr (roots_str_of only_q)) \<and>
   scan_mtimes only_q (tree bare_meta) (split_roots only_q (roots_str_of only_q)) = Inr [] \<and>
   is_stale only_q bare_meta (roots_str_of only_q) = Inr False \<and>
   write_local_bundles only_q all_written False bare_meta = (Inr ''local_bundles.json'', bare_meta)"
proof -
  have r: "roots_str_of only_q = ''/q''"
    by (simp add: roots_str_of_def only_q_def)
  have sp: "split_roots only_q ''/q'' = [''/q'']"
    by (simp add: split_roots_def only_q_def posix_def sep_def strip_def isspace_def)
  have a: "bundles_file bare_meta \<noteq> None"
    by (simp add: bare_meta_def warm_def)
  have b: "meta_file bare_meta = Some (Doc (JObj [(''bndl_roots'', JStr ''/q'')]))"
    by (simp add: bare_meta_def)
  have c: "map_of [(''bndl_roots'', JStr ''/q'')] ''depth2_mtimes'' = None"
    by simp
  have d: "map_of [(''bndl_roots'', JStr ''/q'')] ''bndl_roots'' = Some (JStr (roots_str_of only_q))"
    by (simp add: r)
  have "scan_mtimes only_q (tree bare_meta) [''/q''] = Inr []"
    by (simp add: collector_defs bare_meta_def warm_def tree0_def only_q_def posix_def)
  then have e: "scan_mtimes only_q (tree bare_meta) (split_roots only_q (roots_str_of only_q)) = Inr []"
    by (simp add: r sp)
  have p: "LOCAL_BUNDLES_PATH only_q = ''local_bundles.json''"
    by (simp add: only_q_def posix_def)
  note t = missing_depth2_mtimes_is_empty [OF a b c d e, of all_written]
  have "is_stale only_q bare_meta (roots_str_of only_q) = Inr False"
    using t by simp
  moreover have "write_local_bundles only_q all_written False bare_meta =
      (Inr ''local_bundles.json'', bare_meta)"
    using t p by simp
  ultimately show ?thesis using a b c d e by blast
qed

end
